theory Spec2Isabelle
  imports Main "HOL-Library.Word"
begin

unbundle bit_operations_syntax

section \<open>Shallow embedding of legacy/firmware/layout2.c\<close>

text \<open>
  The theory embeds the three parts of \<^verbatim>\<open>layout2.c\<close> that decide what appears on
  the screen: the derivation-path label (\<^verbatim>\<open>address_n_str\<close>), the message splitter
  (\<^verbatim>\<open>split_message\<close>, \<^verbatim>\<open>split_message_hex\<close>) and the home-screen poll function
  (\<^verbatim>\<open>layoutHomeInfo\<close> with \<^verbatim>\<open>layoutHome\<close>, \<^verbatim>\<open>layoutDeviceInfo\<close> and
  \<^verbatim>\<open>layoutScreensaver\<close>).

  Conventions. A \<^verbatim>\<open>uint32_t\<close> whose arithmetic can wrap is a \<open>32 word\<close>. A byte
  (\<^verbatim>\<open>char\<close>, \<^verbatim>\<open>uint8_t\<close>) is a HOL \<open>char\<close>; the terminator of a C string is
  \<open>CHR 0x00\<close>. A \<^verbatim>\<open>char\<close> array is the list of its bytes; the C string it holds is the
  prefix before the first terminator (\<open>cstr\<close>). The macro \<^verbatim>\<open>_(X)\<close> of gettext.h is the
  identity.
\<close>

type_synonym u32 = "32 word"

subsection \<open>C strings and the bounded copy functions\<close>

abbreviation NUL :: char where
  "NUL \<equiv> CHR 0x00"

text \<open>The string held by a buffer: the bytes before the first terminator. A list that holds no
  terminator stands for a buffer whose terminator comes right after it.\<close>

definition cstr :: "string \<Rightarrow> string" where
  "cstr buf = takeWhile (\<lambda>c. c \<noteq> NUL) buf"

definition strlen :: "string \<Rightarrow> nat" where
  "strlen buf = length (cstr buf)"

text \<open>\<^verbatim>\<open>memzero(buf, n)\<close> on a whole array of \<open>n\<close> bytes.\<close>

definition zeroed :: "nat \<Rightarrow> string" where
  "zeroed n = replicate n NUL"

text \<open>\<^verbatim>\<open>strlcpy(dst, src, sz)\<close>: at most \<open>sz - 1\<close> bytes of the string at \<open>src\<close> are
  copied and a terminator is written after them; the other bytes of \<open>dst\<close> keep their value.\<close>

definition strlcpy :: "string \<Rightarrow> string \<Rightarrow> nat \<Rightarrow> string" where
  "strlcpy dst src sz =
     (if sz = 0 then dst
      else let n = min (strlen src) (sz - 1)
           in take n src @ [NUL] @ drop (n + 1) dst)"

text \<open>\<^verbatim>\<open>strlcat(dst, src, sz)\<close>: the string at \<open>src\<close> is appended to the string in
  \<open>dst\<close> as far as \<open>sz - 1\<close> bytes in all allow; nothing is written when \<open>dst\<close> holds no
  terminator within \<open>sz\<close> bytes.\<close>

definition strlcat :: "string \<Rightarrow> string \<Rightarrow> nat \<Rightarrow> string" where
  "strlcat dst src sz =
     (let dlen = min (strlen dst) sz
      in if dlen = sz then dst
         else let n = min (strlen src) (sz - dlen - 1)
              in take dlen dst @ take n src @ [NUL] @ drop (dlen + n + 1) dst)"

subsection \<open>Derivation-path labels: \<^verbatim>\<open>slip44_extras\<close> and \<^verbatim>\<open>address_n_str\<close>\<close>

text \<open>The fields of \<^verbatim>\<open>CoinInfo\<close> (coins.h) that layout2.c reads. A \<^verbatim>\<open>const char *\<close> that
  may be null is an option.\<close>

record CoinInfo =
  coin_shortcut :: string
  has_segwit :: bool
  bech32_prefix :: "string option"
  cashaddr_prefix :: "string option"

definition slip44_extras :: "u32 \<Rightarrow> string option" where
  "slip44_extras coin_type =
     (if coin_type AND 0x80000000 = 0 then None
      else let t = coin_type AND 0x7fffffff in
        if t = 40 then Some ''EXP''
        else if t = 43 then Some ''NEM''
        else if t = 60 then Some ''ETH''
        else if t = 61 then Some ''ETC''
        else if t = 108 then Some ''UBQ''
        else if t = 137 then Some ''RSK''
        else if t = 37310 then Some ''tRSK''
        else None)"

definition BIP32_MAX_LAST_ELEMENT :: u32 where
  "BIP32_MAX_LAST_ELEMENT = 1000000"

text \<open>The character \<^verbatim>\<open>'0' + d\<close>, stored into a \<^verbatim>\<open>char\<close>.\<close>

definition digit_char :: "nat \<Rightarrow> char" where
  "digit_char d = char_of (of_char CHR ''0'' + d)"

text \<open>The inner \<^verbatim>\<open>do ... while (i > 0)\<close> loop of the raw rendering: the decimal digits of
  \<open>i\<close> are written from the last to the first, each in front of what is already there.\<close>

function digits_loop :: "nat \<Rightarrow> string \<Rightarrow> string" where
  "digits_loop i acc =
     (let acc' = digit_char (i mod 10) # acc; i' = i div 10
      in if i' > 0 then digits_loop i' acc' else acc')"
  by pat_completeness auto
termination
  by (relation "measure (\<lambda>(i, acc). i)") auto

text \<open>One round of the outer loop, for the component \<open>i\<close>: the hardened mark, the digits
  and the slash, written right to left.\<close>

definition path_component :: "u32 \<Rightarrow> string \<Rightarrow> string" where
  "path_component i acc =
     (let acc1 = (if i AND 0x80000000 \<noteq> 0 then CHR 0x27 # acc else acc)
      in CHR ''/'' # digits_loop (unat (i AND 0x7fffffff)) acc1)"

text \<open>The raw rendering at the end of \<^verbatim>\<open>address_n_str\<close>. The loop runs from the last
  component to the first and the buffer is filled from its end, so each round puts its text in
  front: this is \<open>foldr\<close>. The buffer of \<open>7 + 8 * 12 + 1\<close> bytes holds every path of at most 8
  components.\<close>

definition address_str :: "u32 list \<Rightarrow> string" where
  "address_str address_n =
     CHR ''P'' # CHR ''a'' # CHR ''t'' # CHR ''h'' # CHR '':'' # CHR '' '' # CHR ''m'' #
       foldr path_component address_n []"

text \<open>Lines 145 to 170: the label is built in the static buffer \<^verbatim>\<open>path[100]\<close>.\<close>

definition account_label :: "string \<Rightarrow> bool \<Rightarrow> bool \<Rightarrow> bool \<Rightarrow> u32 \<Rightarrow> string" where
  "account_label abbr legacy native_segwit address_is_account accnum =
     (let path0 = strlcpy (zeroed 100) abbr 100;
          path1 = (if legacy then strlcat path0 '' legacy'' 100 else path0);
          path2 = (if native_segwit then strlcat path1 '' segwit'' 100 else path1);
          path3 = (if address_is_account then strlcat path2 '' address #'' 100
                   else strlcat path2 '' account #'' 100);
          acc = (if accnum < 10 then [digit_char (unat accnum), NUL, NUL]
                 else [digit_char (unat (accnum div 10)), digit_char (unat (accnum mod 10)), NUL])
      in cstr (strlcat path3 acc 100))"

text \<open>Lines 116 to 140: the ticker and the \<^verbatim>\<open>legacy\<close> flag. \<^verbatim>\<open>coin->coin_shortcut + 1\<close>
  skips the first byte of the shortcut (a space in coins.c). The branch that consults
  \<^verbatim>\<open>slip44_extras\<close> is compiled only when \<^verbatim>\<open>BITCOIN_ONLY\<close> is 0.\<close>

definition resolve_abbr ::
  "bool \<Rightarrow> CoinInfo option \<Rightarrow> u32 \<Rightarrow> bool \<Rightarrow> bool \<Rightarrow> string option \<times> bool" where
  "resolve_abbr bitcoin_only coin coin_type native_segwit p2sh_segwit =
     (if native_segwit then
        (case coin of
           Some c \<Rightarrow> if has_segwit c \<and> bech32_prefix c \<noteq> None
                     then (Some (drop 1 (coin_shortcut c)), False) else (None, False)
         | None \<Rightarrow> (None, False))
      else if p2sh_segwit then
        (case coin of
           Some c \<Rightarrow> if has_segwit c then (Some (drop 1 (coin_shortcut c)), False)
                     else (None, False)
         | None \<Rightarrow> (None, False))
      else
        (case coin of
           Some c \<Rightarrow> (Some (drop 1 (coin_shortcut c)), has_segwit c)
         | None \<Rightarrow> if bitcoin_only then (None, False)
                   else (slip44_extras coin_type, False)))"

text \<open>\<^verbatim>\<open>address_n_str(address_n, address_n_count, address_is_account)\<close>. The path is the
  list of its \<open>address_n_count\<close> components. \<^verbatim>\<open>coinBySlip44\<close> (coins.c) is a parameter: it is
  called with the component \<^verbatim>\<open>address_n[1]\<close> as it is, hardened bit included. The first
  parameter is the build flag \<^verbatim>\<open>BITCOIN_ONLY\<close>.\<close>

definition address_n_str ::
  "bool \<Rightarrow> (u32 \<Rightarrow> CoinInfo option) \<Rightarrow> u32 list \<Rightarrow> bool \<Rightarrow> string" where
  "address_n_str bitcoin_only coinBySlip44 address_n address_is_account =
     (if length address_n > 8 then ''Unknown long path''
      else if length address_n = 0 then ''Path: m''
      else if length address_n = 5 \<and>
              (address_n ! 0 = 0x80000000 + 44 \<or> address_n ! 0 = 0x80000000 + 49 \<or>
               address_n ! 0 = 0x80000000 + 84) \<and>
              address_n ! 1 AND 0x80000000 \<noteq> 0 \<and> address_n ! 2 AND 0x80000000 \<noteq> 0 \<and>
              address_n ! 3 \<le> 1 \<and> address_n ! 4 \<le> BIP32_MAX_LAST_ELEMENT
      then
        (let native_segwit = (address_n ! 0 = 0x80000000 + 84);
             p2sh_segwit = (address_n ! 0 = 0x80000000 + 49);
             coin = coinBySlip44 (address_n ! 1);
             (abbr, legacy) =
               resolve_abbr bitcoin_only coin (address_n ! 1) native_segwit p2sh_segwit;
             accnum = (if address_is_account then (address_n ! 4 AND 0x7fffffff) + 1
                       else (address_n ! 2 AND 0x7fffffff) + 1)
         in case abbr of
              Some a \<Rightarrow>
                if accnum < 100
                then account_label a legacy native_segwit address_is_account accnum
                else address_str address_n
            | None \<Rightarrow> address_str address_n)
      else address_str address_n)"

text \<open>A registry that knows Bitcoin only, as coins.c describes it, for the examples.\<close>

definition bitcoin :: CoinInfo where
  "bitcoin = \<lparr>coin_shortcut = '' BTC'', has_segwit = True, bech32_prefix = Some ''bc'',
     cashaddr_prefix = None\<rparr>"

definition btc_registry :: "u32 \<Rightarrow> CoinInfo option" where
  "btc_registry coin_type = (if coin_type = 0x80000000 then Some bitcoin else None)"

subsection \<open>Message rows: \<^verbatim>\<open>split_message\<close> and \<^verbatim>\<open>split_message_hex\<close>\<close>

text \<open>\<^verbatim>\<open>split_message(msg, len, rowlen)\<close>. \<open>msg\<close> is the content of the buffer the pointer
  refers to, \<open>len\<close> and \<open>rowlen\<close> are the two \<^verbatim>\<open>uint32_t\<close> arguments; after the clamp
  \<open>rowlen\<close> is at most 32, so no product below can wrap and \<open>nat\<close> arithmetic is exact. The
  result is the four rows \<^verbatim>\<open>str[0..3]\<close>, each the 33 bytes of its array; a caller reads a
  row as a C string (\<open>cstr\<close>). The three stores of the dots use the indices
  \<open>rowlen - 1\<close>, \<open>rowlen - 2\<close>, \<open>rowlen - 3\<close>, which wrap around for \<open>rowlen < 3\<close> and then
  lie outside the row: the model returns \<open>None\<close> for this undefined store.\<close>

definition split_message :: "string \<Rightarrow> nat \<Rightarrow> nat \<Rightarrow> string list option" where
  "split_message msg len rowlen0 =
     (let rowlen = (if rowlen0 > 32 then 32 else rowlen0);
          str0 = strlcpy (zeroed 33) msg (rowlen + 1);
          str1 = (if len > rowlen then strlcpy (zeroed 33) (drop rowlen msg) (rowlen + 1)
                  else zeroed 33);
          str2 = (if len > rowlen * 2 then strlcpy (zeroed 33) (drop (rowlen * 2) msg) (rowlen + 1)
                  else zeroed 33);
          str3 = (if len > rowlen * 3 then strlcpy (zeroed 33) (drop (rowlen * 3) msg) (rowlen + 1)
                  else zeroed 33)
      in if len > rowlen * 4 then
           (if rowlen < 3 then None
            else Some [str0, str1, str2,
                       str3[rowlen - 1 := CHR ''.'', rowlen - 2 := CHR ''.'',
                            rowlen - 3 := CHR ''.'']])
         else Some [str0, str1, str2, str3])"

text \<open>Modelled from the spec: \<^verbatim>\<open>data2hex\<close> (util.c) is not under src/. The spec says that
  the bytes are hex-encoded, two characters for each byte; the model writes the high nibble first
  and a terminator after the last pair, and takes the table of the sixteen digits as the
  parameter \<open>hexdigits\<close>.\<close>

definition hex_of_bytes :: "string \<Rightarrow> string \<Rightarrow> string" where
  "hex_of_bytes hexdigits data =
     concat (map (\<lambda>b. [hexdigits ! ((of_char b :: nat) div 16),
                        hexdigits ! ((of_char b :: nat) mod 16)]) data)"

definition data2hex :: "string \<Rightarrow> string \<Rightarrow> nat \<Rightarrow> string \<Rightarrow> string" where
  "data2hex hexdigits data len str =
     hex_of_bytes hexdigits (take len data) @ [NUL] @ drop (len * 2 + 1) str"

text \<open>\<^verbatim>\<open>split_message_hex(msg, len)\<close>, with the local buffer \<^verbatim>\<open>hex[32 * 2 + 1]\<close>.\<close>

definition split_message_hex :: "string \<Rightarrow> string \<Rightarrow> nat \<Rightarrow> string list option" where
  "split_message_hex hexdigits msg len =
     (let hex0 = zeroed (32 * 2 + 1);
          sz = (if len > 32 then 32 else len);
          hex1 = data2hex hexdigits msg sz hex0;
          hex2 = (if len > 32 then hex1[63 := CHR ''.'', 62 := CHR ''.''] else hex1)
      in split_message hex2 (sz * 2) 16)"

subsection \<open>The home-screen poll: \<^verbatim>\<open>layoutHomeInfo\<close>\<close>

text \<open>
  \<^verbatim>\<open>layoutLast\<close> holds the address of the layout function that drew the screen; the values
  it is given in layout2.c are the constructors of \<open>layout_fn\<close>. The model is the firmware
  build (\<^verbatim>\<open>EMULATOR\<close> is 0).

  What the poll does to the outside is recorded as a trace of events: the display calls, the
  drawing done by \<^verbatim>\<open>layoutHome\<close> (\<open>DrawHome\<close>) and by the \<^verbatim>\<open>switch\<close> of
  \<^verbatim>\<open>layoutDeviceInfo\<close> (\<open>DrawDeviceInfo\<close> with the page; the \<^verbatim>\<open>switch\<close> draws nothing for a
  page other than 1 to 4), \<^verbatim>\<open>recovery_abort()\<close>, \<^verbatim>\<open>signing_abort()\<close>,
  \<^verbatim>\<open>session_clear(bool)\<close> and \<^verbatim>\<open>shutdown()\<close>.
\<close>

datatype layout_fn =
    FnLayoutHome | FnLayoutDeviceInfo | FnLayoutScreensaver | FnLayoutDialogSwipe
  | FnLayoutProgressSwipe | FnLayoutResetWord | FnLayoutAddress | FnLayoutXPUB

datatype event =
    OledClear | LayoutSwipe | OledRefresh | DrawHome | DrawDeviceInfo nat
  | RecoveryAbort | SigningAbort | SessionClear bool | Shutdown

text \<open>The edge flags of the global \<^verbatim>\<open>button\<close> that the poll reads after
  \<^verbatim>\<open>buttonUpdate()\<close>.\<close>

record buttonState =
  NoUp :: bool
  YesUp :: bool
  UpUp :: bool
  DownUp :: bool

text \<open>What one call of \<^verbatim>\<open>layoutHomeInfo\<close> gets from functions that are not in layout2.c:
  the buttons, the millisecond clock (one reading for the whole call), the configuration and
  the transport state. \<open>statusLogo e n force\<close> is the value of the \<open>n\<close>-th call of
  \<^verbatim>\<open>layoutStatusLogo(force)\<close> within the call, counted from 0. \<open>shutdown_returns\<close> says
  whether \<^verbatim>\<open>shutdown()\<close> comes back to its caller.\<close>

record env =
  button :: buttonState
  timer_ms :: u32
  layoutNeedRefresh :: bool
  config_getAutoLockDelayMs :: u32
  sys_nfcState :: bool
  sys_usbState :: bool
  statusLogo :: "nat \<Rightarrow> bool \<Rightarrow> bool"
  shutdown_returns :: bool

text \<open>The variables the poll owns or shares: \<^verbatim>\<open>layoutLast\<close>, the static \<^verbatim>\<open>info_page\<close>
  (a \<^verbatim>\<open>uint8_t\<close> that the code keeps between 0 and 4), the three time stamps; and the
  bookkeeping of one call: the trace, the number of \<^verbatim>\<open>layoutStatusLogo\<close> calls so far, and
  whether the device has stopped in \<^verbatim>\<open>shutdown()\<close>.\<close>

record ui =
  layoutLast :: layout_fn
  info_page :: nat
  system_millis_display_info_start :: u32
  system_millis_lock_start :: u32
  system_millis_logo_refresh :: u32
  trace :: "event list"
  logo_calls :: nat
  halted :: bool

definition DEVICE_INFO_PAGE_NUM :: nat where
  "DEVICE_INFO_PAGE_NUM = 4"

definition emit :: "event \<Rightarrow> ui \<Rightarrow> ui" where
  "emit ev s = s\<lparr>trace := trace s @ [ev]\<rparr>"

definition layoutStatusLogo :: "env \<Rightarrow> bool \<Rightarrow> ui \<Rightarrow> bool \<times> ui" where
  "layoutStatusLogo e force s =
     (statusLogo e (logo_calls s) force, s\<lparr>logo_calls := Suc (logo_calls s)\<rparr>)"

definition shutdown :: "env \<Rightarrow> ui \<Rightarrow> ui" where
  "shutdown e s = (emit Shutdown s)\<lparr>halted := \<not> shutdown_returns e\<rparr>"

definition layoutScreensaver :: "ui \<Rightarrow> ui" where
  "layoutScreensaver s =
     emit OledRefresh (emit OledClear (s\<lparr>layoutLast := FnLayoutScreensaver\<rparr>))"

definition layoutHome :: "env \<Rightarrow> ui \<Rightarrow> ui" where
  "layoutHome e s =
     (let s1 = (if layoutLast s = FnLayoutHome \<or> layoutLast s = FnLayoutScreensaver
                then emit OledClear s else emit LayoutSwipe s);
          s2 = emit DrawHome (s1\<lparr>layoutLast := FnLayoutHome\<rparr>);
          (r, s3) = layoutStatusLogo e True s2;
          s4 = (if r then emit (SessionClear True) (emit SigningAbort (emit RecoveryAbort s3))
                else s3);
          s5 = emit OledRefresh s4
      in s5\<lparr>system_millis_lock_start := timer_ms e\<rparr>)"

definition layoutDeviceInfo :: "env \<Rightarrow> nat \<Rightarrow> ui \<Rightarrow> ui" where
  "layoutDeviceInfo e ucPage s =
     (emit OledRefresh (emit (DrawDeviceInfo ucPage) s))
       \<lparr>layoutLast := FnLayoutDeviceInfo, system_millis_display_info_start := timer_ms e\<rparr>"

text \<open>Lines 1420 to 1448: the info pages.\<close>

definition info_pages :: "env \<Rightarrow> ui \<Rightarrow> ui" where
  "info_pages e s =
     (if layoutLast s = FnLayoutHome then
        (if UpUp (button e) \<or> DownUp (button e) then
           (let s1 = (if UpUp (button e) then s\<lparr>info_page := DEVICE_INFO_PAGE_NUM\<rparr>
                      else s\<lparr>info_page := 1\<rparr>)
            in layoutDeviceInfo e (info_page s1) s1)
         else s)
      else if layoutLast s = FnLayoutDeviceInfo then
        (let s1 = (if timer_ms e - system_millis_display_info_start s \<ge> 10 * 1000
                   then s\<lparr>info_page := 0\<rparr> else s);
             s2 = (if UpUp (button e) then
                     (if info_page s1 \<noteq> 0 then
                        (let s' = s1\<lparr>info_page := info_page s1 - 1\<rparr>
                         in layoutDeviceInfo e (info_page s') s')
                      else s1)
                   else if DownUp (button e) then
                     (if info_page s1 < DEVICE_INFO_PAGE_NUM then
                        (let s' = s1\<lparr>info_page := info_page s1 + 1\<rparr>
                         in layoutDeviceInfo e (info_page s') s')
                      else s1\<lparr>info_page := 0\<rparr>)
                   else if NoUp (button e) then s1\<lparr>info_page := 0\<rparr>
                   else s1)
         in if info_page s2 = 0 then layoutHome e s2 else s2)
      else s)"

text \<open>Lines 1451 to 1466: the home screen has been shown for too long.\<close>

definition auto_lock :: "env \<Rightarrow> ui \<Rightarrow> ui" where
  "auto_lock e s =
     (if timer_ms e - system_millis_lock_start s \<ge> config_getAutoLockDelayMs e then
        (if sys_nfcState e \<or> sys_usbState e
         then layoutScreensaver (emit (SessionClear True) s)
         else shutdown e s)
      else s)"

text \<open>Lines 1468 to 1478: the status poll, every 1000 ms.\<close>

definition logo_refresh :: "env \<Rightarrow> ui \<Rightarrow> ui" where
  "logo_refresh e s =
     (if timer_ms e - system_millis_logo_refresh s \<ge> 1000 then
        (let (r, s1) = layoutStatusLogo e False s;
             s2 = (if r then
                     layoutHome e
                       (emit (SessionClear True) (emit SigningAbort (emit RecoveryAbort s1)))
                   else s1)
         in s2\<lparr>system_millis_logo_refresh := timer_ms e\<rparr>)
      else s)"

text \<open>Lines 1450 to 1480: both run under the one test of \<^verbatim>\<open>layoutLast\<close> made at line 1450.
  When \<^verbatim>\<open>shutdown()\<close> does not come back, nothing after it runs.\<close>

definition home_timeout :: "env \<Rightarrow> ui \<Rightarrow> ui" where
  "home_timeout e s =
     (if layoutLast s = FnLayoutHome then
        (let s1 = auto_lock e s
         in if halted s1 then s1 else logo_refresh e s1)
      else s)"

text \<open>Lines 1481 to 1492: wake from the screensaver on any button, else abort on the No
  button.\<close>

definition wake_or_abort :: "env \<Rightarrow> ui \<Rightarrow> ui" where
  "wake_or_abort e s =
     (if layoutLast s = FnLayoutScreensaver \<and>
         (NoUp (button e) \<or> YesUp (button e) \<or> UpUp (button e) \<or> DownUp (button e))
      then layoutHome e s
      else if layoutLast s \<noteq> FnLayoutHome \<and> layoutLast s \<noteq> FnLayoutScreensaver then
        (if NoUp (button e) then emit SigningAbort (emit RecoveryAbort s) else s)
      else s)"

definition layoutHomeInfo :: "env \<Rightarrow> ui \<Rightarrow> ui" where
  "layoutHomeInfo e s =
     (let s1 = (if layoutNeedRefresh e then layoutHome e s else s);
          s2 = info_pages e s1;
          s3 = home_timeout e s2
      in if halted s3 then s3 else wake_or_abort e s3)"

text \<open>One tick: a call of \<^verbatim>\<open>layoutHomeInfo\<close> with a fresh trace, so that the trace of the
  result holds what this call did.\<close>

definition tick :: "env \<Rightarrow> ui \<Rightarrow> ui" where
  "tick e s = layoutHomeInfo e (s\<lparr>trace := [], logo_calls := 0, halted := False\<rparr>)"

text \<open>Concrete inputs for the examples: no button, the clock at 500 ms, a delay of ten minutes,
  USB connected, \<^verbatim>\<open>layoutStatusLogo\<close> reporting nothing; and a state with all time stamps
  at 0.\<close>

definition no_buttons :: buttonState where
  "no_buttons = \<lparr>NoUp = False, YesUp = False, UpUp = False, DownUp = False\<rparr>"

definition quiet_env :: env where
  "quiet_env = \<lparr>button = no_buttons, timer_ms = 500, layoutNeedRefresh = False,
     config_getAutoLockDelayMs = 600000, sys_nfcState = False, sys_usbState = True,
     statusLogo = (\<lambda>n force. False), shutdown_returns = False\<rparr>"

text \<open>A \<^verbatim>\<open>layoutStatusLogo\<close> that reports at its first call of the tick only; and the
  environment of a tick ten minutes after the last activity in which it does so.\<close>

definition status_once :: "nat \<Rightarrow> bool \<Rightarrow> bool" where
  "status_once n force \<longleftrightarrow> n = 0"

definition alarm_env :: env where
  "alarm_env = quiet_env\<lparr>timer_ms := 600000, statusLogo := status_once\<rparr>"

definition ui_at :: "layout_fn \<Rightarrow> nat \<Rightarrow> ui" where
  "ui_at f p = \<lparr>layoutLast = f, info_page = p, system_millis_display_info_start = 0,
     system_millis_lock_start = 0, system_millis_logo_refresh = 0, trace = [],
     logo_calls = 0, halted = False\<rparr>"

subsection \<open>Auxiliary definitions for the statements\<close>

text \<open>The account number as a label is to show it: in decimal and without padding, one digit
  below 10 and two digits from 10 to 99. The digits are taken from the text "0123456789",
  where the code computes \<^verbatim>\<open>'0' + d\<close>.\<close>

definition unpadded_decimal :: "nat \<Rightarrow> string" where
  "unpadded_decimal k =
     (if k < 10 then [''0123456789'' ! k]
      else [''0123456789'' ! (k div 10), ''0123456789'' ! (k mod 10)])"

text \<open>Row \<open>k\<close> of \<^verbatim>\<open>split_message\<close> for the clamped width \<open>w\<close>, before the dots are
  stored (lines 229 to 238): row 0 is always copied, row \<open>k\<close> when \<open>len > w * k\<close>.\<close>

definition row_of :: "string \<Rightarrow> nat \<Rightarrow> nat \<Rightarrow> nat \<Rightarrow> string" where
  "row_of msg len w k =
     (if k = 0 \<or> w * k < len then strlcpy (zeroed 33) (drop (w * k) msg) (Suc w) else zeroed 33)"

text \<open>The invariant of a call for the time stamps: \<^verbatim>\<open>system_millis_lock_start\<close> is the
  clock reading of the call once the trace holds the drawing of the home screen and its old
  value \<open>lock0\<close> before; \<^verbatim>\<open>system_millis_display_info_start\<close> is the clock reading once the
  trace holds the drawing of an info page and its old value \<open>info0\<close> before.\<close>

fun is_DrawDeviceInfo :: "event \<Rightarrow> bool" where
  "is_DrawDeviceInfo (DrawDeviceInfo p) = True"
| "is_DrawDeviceInfo _ = False"

definition stamps_follow :: "env \<Rightarrow> u32 \<Rightarrow> u32 \<Rightarrow> ui \<Rightarrow> bool" where
  "stamps_follow e lock0 info0 s \<longleftrightarrow>
     system_millis_lock_start s = (if DrawHome \<in> set (trace s) then timer_ms e else lock0) \<and>
     system_millis_display_info_start s =
       (if \<exists>ev \<in> set (trace s). is_DrawDeviceInfo ev then timer_ms e else info0)"

section \<open>Properties of the bounded copies\<close>

lemma cstr_zeroed: "cstr (zeroed n) = []"
  by (cases n) (simp_all add: cstr_def zeroed_def)

lemma cstr_terminated: "NUL \<notin> set a \<Longrightarrow> cstr (a @ NUL # r) = a"
  by (auto simp: cstr_def takeWhile_tail)

lemma cstr_eq_take: "cstr src = take (strlen src) src"
  unfolding cstr_def strlen_def by (rule takeWhile_eq_take)

lemma NUL_notin_cstr: "NUL \<notin> set (cstr src)"
  by (auto simp: cstr_def dest: set_takeWhileD)

lemma take_le_strlen: "k \<le> strlen src \<Longrightarrow> take k src = take k (cstr src)"
  by (subst cstr_eq_take) (simp add: min_def)

lemma strlcpy_eq:
  "strlcpy dst src (Suc n) = take n (cstr src) @ NUL # drop (Suc (min (strlen src) n)) dst"
proof -
  have "take (min (strlen src) n) src = take (min (strlen src) n) (cstr src)"
    by (rule take_le_strlen) simp
  also have "\<dots> = take n (cstr src)"
    by (simp add: strlen_def min_def)
  finally show ?thesis
    by (simp add: strlcpy_def Let_def)
qed

lemma cstr_strlcpy: "cstr (strlcpy dst src (Suc n)) = take n (cstr src)"
proof -
  have "NUL \<notin> set (take n (cstr src))"
    using NUL_notin_cstr [of src] by (auto dest: in_set_takeD)
  then show ?thesis
    by (simp add: strlcpy_eq cstr_terminated)
qed

lemma length_cstr_le: "length (cstr xs) \<le> length xs"
  by (simp add: cstr_def length_takeWhile_le)

lemma cstr_no_NUL: "NUL \<notin> set xs \<Longrightarrow> cstr xs = xs"
  by (auto simp: cstr_def)

lemma strlcpy_src_tail: "strlcpy dst (a @ NUL # z) sz = strlcpy dst a sz"
proof -
  have c: "cstr (a @ NUL # z) = cstr a"
    by (simp add: cstr_def takeWhile_tail)
  then have l: "strlen (a @ NUL # z) = strlen a"
    by (simp add: strlen_def)
  have "strlen a \<le> length a"
    by (simp add: strlen_def cstr_def length_takeWhile_le)
  then have "take (min (strlen a) (sz - 1)) (a @ NUL # z) = take (min (strlen a) (sz - 1)) a"
    by simp
  then show ?thesis
    by (simp add: strlcpy_def l Let_def)
qed

lemma take_take_append: "take n (take n xs @ ys) = take n (xs @ ys)"
  by (cases "n \<le> length xs") simp_all

lemma cstr_literals:
  "cstr '' legacy'' = '' legacy''" "cstr '' segwit'' = '' segwit''"
  "cstr '' address #'' = '' address #''" "cstr '' account #'' = '' account #''"
  by (simp_all add: cstr_def)

lemma strlcpy_zeroed_100:
  "length (strlcpy (zeroed 100) src 100) = 100"
  "strlen (strlcpy (zeroed 100) src 100) < 100"
  "cstr (strlcpy (zeroed 100) src 100) = take 99 (cstr src)"
proof -
  have eq: "strlcpy (zeroed 100) src 100 =
      take 99 (cstr src) @ NUL # drop (Suc (min (strlen src) 99)) (zeroed 100)"
    using strlcpy_eq [of "zeroed 100" src 99] by simp
  show c: "cstr (strlcpy (zeroed 100) src 100) = take 99 (cstr src)"
    using cstr_strlcpy [of "zeroed 100" src 99] by simp
  show "length (strlcpy (zeroed 100) src 100) = 100"
    unfolding eq by (simp add: zeroed_def strlen_def min_def)
  show "strlen (strlcpy (zeroed 100) src 100) < 100"
    by (simp add: strlen_def c)
qed

lemma strlcat_100:
  assumes "length dst = 100" and "strlen dst < 100"
  shows "length (strlcat dst src 100) = 100"
    and "strlen (strlcat dst src 100) < 100"
    and "cstr (strlcat dst src 100) = take 99 (cstr dst @ cstr src)"
proof -
  define n where "n = min (strlen src) (99 - strlen dst)"
  have eq: "strlcat dst src 100 =
      (cstr dst @ take n (cstr src)) @ NUL # drop (strlen dst + n + 1) dst"
  proof -
    have "take n src = take n (cstr src)"
      by (rule take_le_strlen) (simp add: n_def)
    moreover have "take (strlen dst) dst = cstr dst"
      by (simp add: cstr_eq_take [symmetric])
    ultimately show ?thesis
      using assms(2) by (simp add: strlcat_def Let_def n_def min_def)
  qed
  have nul: "NUL \<notin> set (cstr dst @ take n (cstr src))"
    using NUL_notin_cstr [of dst] NUL_notin_cstr [of src] by (auto dest: in_set_takeD)
  have c: "cstr (strlcat dst src 100) = cstr dst @ take n (cstr src)"
    unfolding eq by (rule cstr_terminated [OF nul])
  have "take n (cstr src) = take (99 - strlen dst) (cstr src)"
    by (simp add: n_def strlen_def min_def)
  then show "cstr (strlcat dst src 100) = take 99 (cstr dst @ cstr src)"
    using assms(2) by (simp add: c strlen_def)
  show "strlen (strlcat dst src 100) < 100"
    using assms(2) by (simp add: strlen_def c n_def)
  show "length (strlcat dst src 100) = 100"
    using assms by (simp add: eq n_def strlen_def min_def)
qed

lemma strlcat_step:
  assumes "length dst = 100" and "strlen dst < 100" and "cstr dst = take 99 a"
    and "dst' = (if c then strlcat dst src 100 else dst)"
  shows "length dst' = 100" and "strlen dst' < 100"
    and "cstr dst' = take 99 (a @ (if c then cstr src else []))"
proof -
  show "length dst' = 100" and "strlen dst' < 100"
    using assms(1,2) strlcat_100(1,2) [OF assms(1,2), of src] by (simp_all add: assms(4))
  have "cstr (strlcat dst src 100) = take 99 (a @ cstr src)"
    by (simp only: strlcat_100(3) [OF assms(1,2)] assms(3) take_take_append)
  then show "cstr dst' = take 99 (a @ (if c then cstr src else []))"
    by (simp add: assms(3,4))
qed

section \<open>Properties of the path labels\<close>

lemma account_label_BTC_legacy_1:
  "account_label ''BTC'' True False False 1 = ''BTC legacy account #1''"
  by code_simp

lemma address_str_84_60:
  "address_str [0x80000000 + 84, 0x80000000 + 60, 0x80000000, 0, 0] =
     ''Path: m/84'' @ [CHR 0x27] @ ''/60'' @ [CHR 0x27] @ ''/0'' @ [CHR 0x27] @ ''/0/0''"
  by code_simp

lemmas known_path_defs = address_n_str_def resolve_abbr_def BIP32_MAX_LAST_ELEMENT_def

lemma digit_chars:
  "digit_char 0 = CHR ''0''" "digit_char 1 = CHR ''1''" "digit_char 2 = CHR ''2''"
  "digit_char 3 = CHR ''3''" "digit_char 4 = CHR ''4''" "digit_char 5 = CHR ''5''"
  "digit_char 6 = CHR ''6''" "digit_char 7 = CHR ''7''" "digit_char 8 = CHR ''8''"
  "digit_char 9 = CHR ''9''" "digit_char (Suc 0) = CHR ''1''"
  by code_simp+

lemma digit_char_nth:
  assumes "d < 10"
  shows "digit_char d = ''0123456789'' ! d" and "digit_char d \<noteq> NUL"
proof -
  from assms consider "d = 0" | "d = 1" | "d = 2" | "d = 3" | "d = 4" | "d = 5" | "d = 6"
    | "d = 7" | "d = 8" | "d = 9"
    by atomize_elim presburger
  then have "digit_char d = ''0123456789'' ! d \<and> digit_char d \<noteq> NUL"
    by cases (auto simp: digit_chars)
  then show "digit_char d = ''0123456789'' ! d" and "digit_char d \<noteq> NUL"
    by blast+
qed

lemma account_label_eq:
  "account_label abbr legacy native_segwit address_is_account accnum =
     take 99 (cstr abbr @ (if legacy then '' legacy'' else []) @
              (if native_segwit then '' segwit'' else []) @
              (if address_is_account then '' address #'' else '' account #'') @
              cstr (if accnum < 10 then [digit_char (unat accnum), NUL, NUL]
                    else [digit_char (unat (accnum div 10)), digit_char (unat (accnum mod 10)),
                          NUL]))"
proof -
  define path0 where "path0 = strlcpy (zeroed 100) abbr 100"
  define path1 where "path1 = (if legacy then strlcat path0 '' legacy'' 100 else path0)"
  define path2 where "path2 = (if native_segwit then strlcat path1 '' segwit'' 100 else path1)"
  define path3 where "path3 = (if address_is_account then strlcat path2 '' address #'' 100
                   else strlcat path2 '' account #'' 100)"
  define noun where "noun = (if address_is_account then '' address #'' else '' account #'')"
  define acc where "acc = (if accnum < 10 then [digit_char (unat accnum), NUL, NUL]
                 else [digit_char (unat (accnum div 10)), digit_char (unat (accnum mod 10)), NUL])"
  have p0: "length path0 = 100" "strlen path0 < 100" "cstr path0 = take 99 (cstr abbr)"
    unfolding path0_def by (rule strlcpy_zeroed_100)+
  note p1 = strlcat_step [OF p0 path1_def]
  note p2 = strlcat_step [OF p1 path2_def]
  have path3: "path3 = (if True then strlcat path2 noun 100 else path2)"
    by (simp add: path3_def noun_def)
  note p3 = strlcat_step [OF p2 path3]
  have "account_label abbr legacy native_segwit address_is_account accnum =
      cstr (if True then strlcat path3 acc 100 else path3)"
    by (simp add: account_label_def Let_def path0_def path1_def path2_def path3_def acc_def)
  also have "\<dots> = take 99 ((((cstr abbr @ (if legacy then cstr '' legacy'' else [])) @
      (if native_segwit then cstr '' segwit'' else [])) @
      (if True then cstr noun else [])) @ (if True then cstr acc else []))"
    by (rule strlcat_step(3) [OF p3 refl])
  finally show ?thesis
    by (simp add: cstr_literals noun_def acc_def)
qed

lemma cstr_acc:
  assumes "unat accnum < 100"
  shows "cstr (if accnum < 10 then [digit_char (unat accnum), NUL, NUL]
               else [digit_char (unat (accnum div 10)), digit_char (unat (accnum mod 10)), NUL]) =
         unpadded_decimal (unat (accnum :: u32))"
proof (cases "accnum < 10")
  case True
  then have k: "unat accnum < 10"
    by (simp add: word_less_nat_alt)
  with True show ?thesis
    using digit_char_nth [OF k] by (simp add: cstr_def unpadded_decimal_def)
next
  case False
  then have k: "\<not> unat accnum < 10"
    by (simp add: word_less_nat_alt)
  have d: "unat (accnum div 10) = unat accnum div 10" "unat (accnum mod 10) = unat accnum mod 10"
    by (simp_all add: unat_div unat_mod)
  have "unat accnum div 10 < 10" "unat accnum mod 10 < 10"
    using assms by simp_all
  then show ?thesis
    using False k digit_char_nth [of "unat accnum div 10"] digit_char_nth [of "unat accnum mod 10"]
    by (simp add: cstr_def unpadded_decimal_def d)
qed

lemma length_unpadded_decimal: "length (unpadded_decimal k) \<le> 2"
  by (simp add: unpadded_decimal_def)

lemma account_label_BTC:
  assumes "unat accnum < 100"
  shows "account_label ''BTC'' True False False accnum =
           ''BTC legacy account #'' @ unpadded_decimal (unat accnum)"
    and "account_label ''BTC'' False True False accnum =
           ''BTC segwit account #'' @ unpadded_decimal (unat accnum)"
proof -
  have btc: "cstr ''BTC'' = ''BTC''"
    by (simp add: cstr_def)
  have "account_label ''BTC'' True False False accnum =
      take 99 (''BTC legacy account #'' @ unpadded_decimal (unat accnum))"
    by (simp only: account_label_eq cstr_acc [OF assms] btc if_True if_False) simp
  then show "account_label ''BTC'' True False False accnum =
      ''BTC legacy account #'' @ unpadded_decimal (unat accnum)"
    using length_unpadded_decimal [of "unat accnum"] by simp
  have "account_label ''BTC'' False True False accnum =
      take 99 (''BTC segwit account #'' @ unpadded_decimal (unat accnum))"
    by (simp only: account_label_eq cstr_acc [OF assms] btc if_True if_False) simp
  then show "account_label ''BTC'' False True False accnum =
      ''BTC segwit account #'' @ unpadded_decimal (unat accnum)"
    using length_unpadded_decimal [of "unat accnum"] by simp
qed

lemma unpadded_decimal_examples:
  "unpadded_decimal 1 = ''1''" "unpadded_decimal 12 = ''12''"
  by (simp_all add: unpadded_decimal_def)

text \<open>
  Claim C3. A path of more than 8 components is rendered as the fixed text
  "Unknown long path", whatever its components, the registry and the account flag are: the
  components are not read.
\<close>

theorem address_n_str_long_path:
  "length address_n > 8 \<Longrightarrow>
     address_n_str bitcoin_only coinBySlip44 address_n address_is_account = ''Unknown long path''"
  by (simp add: address_n_str_def)

theorem address_n_str_long_path_witness:
  "length [1, 2, 3, 4, 5, 6, 7, 8, 9 :: u32] > 8 \<and>
   address_n_str False btc_registry [1, 2, 3, 4, 5, 6, 7, 8, 9] True = ''Unknown long path''"
  using address_n_str_long_path [of "[1, 2, 3, 4, 5, 6, 7, 8, 9]" False btc_registry True]
  by simp

text \<open>
  Claim C4, as the code has it. The registry resolves the coin component 0' to a coin with the
  shortcut " BTC" and segwit. For every hardened account component whose account number \<open>k\<close>
  (the index plus one) is below 100, the path 44'/0'/account/0/0 with the account flag off is
  labelled "BTC legacy account #" followed by \<open>k\<close> in decimal without padding (one digit below
  10, two digits from 10 to 99); when the coin has a bech32 prefix as well, the path
  84'/0'/account/0/0 is labelled "BTC segwit account #" followed by the same digits. For the
  account 0' the labels are "BTC legacy account #1" and "BTC segwit account #1".
\<close>

theorem address_n_str_btc_labels:
  assumes "coinBySlip44 0x80000000 = Some c" and "coin_shortcut c = '' BTC''" and "has_segwit c"
    and "account AND 0x80000000 \<noteq> 0" and "k = unat ((account AND 0x7fffffff) + 1)"
    and "k < 100"
  shows "address_n_str bitcoin_only coinBySlip44
           [0x80000000 + 44, 0x80000000, account, 0, 0] False =
           ''BTC legacy account #'' @ unpadded_decimal k \<and>
         (bech32_prefix c \<noteq> None \<longrightarrow>
          address_n_str bitcoin_only coinBySlip44
            [0x80000000 + 84, 0x80000000, account, 0, 0] False =
            ''BTC segwit account #'' @ unpadded_decimal k)"
proof -
  define accnum where "accnum = (account AND 0x7fffffff) + 1"
  have k: "unat accnum < 100"
    using assms(5,6) by (simp add: accnum_def)
  then have lt: "accnum < 100"
    by (simp add: word_less_nat_alt)
  have "address_n_str bitcoin_only coinBySlip44
      [0x80000000 + 44, 0x80000000, account, 0, 0] False =
      account_label ''BTC'' True False False accnum"
    using assms(1-4) lt by (simp add: known_path_defs accnum_def)
  moreover have "address_n_str bitcoin_only coinBySlip44
      [0x80000000 + 84, 0x80000000, account, 0, 0] False =
      account_label ''BTC'' False True False accnum" if "bech32_prefix c \<noteq> None"
    using assms(1-4) lt that by (simp add: known_path_defs accnum_def)
  ultimately show ?thesis
    using account_label_BTC [OF k] assms(5) by (simp add: accnum_def)
qed

theorem address_n_str_btc_labels_witness:
  "address_n_str False btc_registry
     [0x80000000 + 44, 0x80000000, 0x80000000, 0, 0] False = ''BTC legacy account #1'' \<and>
   address_n_str False btc_registry
     [0x80000000 + 84, 0x80000000, 0x80000000, 0, 0] False = ''BTC segwit account #1'' \<and>
   address_n_str False btc_registry
     [0x80000000 + 44, 0x80000000, 0x80000000 + 11, 0, 0] False = ''BTC legacy account #12''"
proof -
  have r: "btc_registry 0x80000000 = Some bitcoin"
    by (simp add: btc_registry_def)
  have b: "coin_shortcut bitcoin = '' BTC''" "has_segwit bitcoin" "bech32_prefix bitcoin \<noteq> None"
    by (simp_all add: bitcoin_def)
  have a1: "(0x80000000 :: u32) AND 0x80000000 \<noteq> 0"
    and k1: "(1::nat) = unat (((0x80000000 :: u32) AND 0x7fffffff) + 1)"
    and a12: "(0x80000000 + 11 :: u32) AND 0x80000000 \<noteq> 0"
    and k12: "(12::nat) = unat (((0x80000000 + 11 :: u32) AND 0x7fffffff) + 1)"
    by simp_all
  have "(1::nat) < 100" and "(12::nat) < 100"
    by simp_all
  with address_n_str_btc_labels [of btc_registry bitcoin "0x80000000" 1 False, OF r b(1,2) a1 k1]
    address_n_str_btc_labels [of btc_registry bitcoin "0x80000000 + 11" 12 False,
      OF r b(1,2) a12 k12] b(3)
  show ?thesis
    by (simp only: unpadded_decimal_examples append.simps simp_thms)
qed

text \<open>The claim as the spec states it fails: the label of 44'/0'/0'/0/0 does not end in
  "#01".\<close>

theorem address_n_str_no_zero_padding:
  "address_n_str False btc_registry [0x80000000 + 44, 0x80000000, 0x80000000, 0, 0] False
     \<noteq> ''BTC legacy account #01''"
  by (simp add: known_path_defs account_label_BTC_legacy_1 btc_registry_def bitcoin_def)

text \<open>
  Claim C5. For a path of five components, the table of \<^verbatim>\<open>slip44_extras\<close> (40 EXP, 43 NEM,
  60 ETH, 61 ETC, 108 UBQ, 137 RSK, 37310 tRSK) has a say only when the purpose is 44' and the
  registry has no entry for the coin component. With any other purpose (84' and 49' among
  them) and no registry entry the result is the raw rendering "Path: m/...". With a registry
  entry the result is the raw rendering or the label built from the shortcut of that entry,
  never from the table. In every case other than purpose 44' without a registry entry, the
  label is also the one of a build that has no extras table at all (\<^verbatim>\<open>BITCOIN_ONLY\<close>).
\<close>

theorem slip44_extras_last_resort:
  assumes "length p = 5"
  shows "(p ! 0 \<noteq> 0x80000000 + 44 \<and> coinBySlip44 (p ! 1) = None \<longrightarrow>
            address_n_str b coinBySlip44 p acct = address_str p) \<and>
         (coinBySlip44 (p ! 1) = Some c \<longrightarrow>
            address_n_str b coinBySlip44 p acct = address_str p \<or>
            address_n_str b coinBySlip44 p acct =
              account_label (drop 1 (coin_shortcut c))
                (p ! 0 = 0x80000000 + 44 \<and> has_segwit c) (p ! 0 = 0x80000000 + 84) acct
                (if acct then (p ! 4 AND 0x7fffffff) + 1 else (p ! 2 AND 0x7fffffff) + 1)) \<and>
         (\<not> (p ! 0 = 0x80000000 + 44 \<and> coinBySlip44 (p ! 1) = None) \<longrightarrow>
            address_n_str False coinBySlip44 p acct = address_n_str True coinBySlip44 p acct) \<and>
         map slip44_extras [0x80000000 + 40, 0x80000000 + 43, 0x80000000 + 60, 0x80000000 + 61,
                            0x80000000 + 108, 0x80000000 + 137, 0x80000000 + 37310]
           = [Some ''EXP'', Some ''NEM'', Some ''ETH'', Some ''ETC'', Some ''UBQ'',
              Some ''RSK'', Some ''tRSK'']"
  using assms
  by (auto simp: address_n_str_def resolve_abbr_def slip44_extras_def Let_def
           split: option.splits)

text \<open>The path 84'/60'/0'/0/0 with a registry that does not know the coin 60', which the
  extras table calls ETH: the label is the raw path. The path 44'/0'/0'/0/0 with the registered
  coin 0': the raw path or the label of the registered shortcut.\<close>

theorem slip44_extras_last_resort_witness:
  "address_n_str False btc_registry [0x80000000 + 84, 0x80000000 + 60, 0x80000000, 0, 0] False =
     ''Path: m/84'' @ [CHR 0x27] @ ''/60'' @ [CHR 0x27] @ ''/0'' @ [CHR 0x27] @ ''/0/0'' \<and>
   address_n_str False btc_registry [0x80000000 + 84, 0x80000000 + 60, 0x80000000, 0, 0] False =
     address_n_str True btc_registry [0x80000000 + 84, 0x80000000 + 60, 0x80000000, 0, 0] False \<and>
   (address_n_str False btc_registry [0x80000000 + 44, 0x80000000, 0x80000000, 0, 0] False =
      address_str [0x80000000 + 44, 0x80000000, 0x80000000, 0, 0] \<or>
    address_n_str False btc_registry [0x80000000 + 44, 0x80000000, 0x80000000, 0, 0] False =
      ''BTC legacy account #1'')"
proof -
  let ?p = "[0x80000000 + 84, 0x80000000 + 60, 0x80000000, 0, 0] :: u32 list"
  let ?q = "[0x80000000 + 44, 0x80000000, 0x80000000, 0, 0] :: u32 list"
  have len: "length ?p = 5" "length ?q = 5"
    by simp_all
  have unregistered: "?p ! 0 \<noteq> 0x80000000 + 44 \<and> btc_registry (?p ! 1) = None"
    by (simp add: btc_registry_def)
  have other: "\<not> (?p ! 0 = 0x80000000 + 44 \<and> btc_registry (?p ! 1) = None)"
    by simp
  have registered: "btc_registry (?q ! 1) = Some bitcoin"
    by (simp add: btc_registry_def)
  have label: "account_label (drop 1 (coin_shortcut bitcoin))
      (?q ! 0 = 0x80000000 + 44 \<and> has_segwit bitcoin) (?q ! 0 = 0x80000000 + 84) False
      (if False then (?q ! 4 AND 0x7fffffff) + 1 else (?q ! 2 AND 0x7fffffff) + 1) =
      ''BTC legacy account #1''"
    by (simp add: bitcoin_def account_label_BTC_legacy_1)
  from slip44_extras_last_resort [of ?p btc_registry False False bitcoin, OF len(1)] unregistered other
  have "address_n_str False btc_registry ?p False = address_str ?p"
    and "address_n_str False btc_registry ?p False = address_n_str True btc_registry ?p False"
    by blast+
  moreover
  from slip44_extras_last_resort [of ?q btc_registry False False bitcoin, OF len(2)] registered
  have "address_n_str False btc_registry ?q False = address_str ?q \<or>
    address_n_str False btc_registry ?q False =
      account_label (drop 1 (coin_shortcut bitcoin))
      (?q ! 0 = 0x80000000 + 44 \<and> has_segwit bitcoin) (?q ! 0 = 0x80000000 + 84) False
      (if False then (?q ! 4 AND 0x7fffffff) + 1 else (?q ! 2 AND 0x7fffffff) + 1)"
    by blast
  ultimately show ?thesis
    by (simp only: address_str_84_60 label simp_thms)
qed

section \<open>Properties of the message rows\<close>

lemma split_message_src_tail:
  assumes "len \<le> length t"
  shows "split_message (t @ NUL # z) len rowlen = split_message t len rowlen"
proof -
  have d: "strlcpy dst (drop k (t @ NUL # z)) sz = strlcpy dst (drop k t) sz"
    if "k \<le> length t" for k dst sz
    using that by (simp add: strlcpy_src_tail)
  show ?thesis
    unfolding split_message_def Let_def
    using assms by (simp add: d strlcpy_src_tail)
qed

lemma split_message_clamp:
  "split_message msg len rowlen = split_message msg len (min rowlen 32)"
  by (simp add: split_message_def min_def)

lemma split_message_short:
  assumes "len \<le> min rowlen 32"
  shows "split_message msg len rowlen =
           Some [strlcpy (zeroed 33) msg (Suc (min rowlen 32)), zeroed 33, zeroed 33, zeroed 33]"
proof -
  define w where "w = min rowlen 32"
  have "w \<le> 32" and "len \<le> w"
    using assms by (simp_all add: w_def)
  then have "split_message msg len w =
      Some [strlcpy (zeroed 33) msg (Suc w), zeroed 33, zeroed 33, zeroed 33]"
    by (simp add: split_message_def Let_def)
  then show ?thesis
    unfolding w_def by (subst split_message_clamp)
qed

lemma three_dots:
  assumes "3 \<le> length t"
  shows "t[2 := d, 1 := d, 0 := d] = [d, d, d] @ drop 3 t"
proof -
  from assms obtain x y z r where "t = x # y # z # r"
    by (cases t; cases "tl t"; cases "tl (tl t)") auto
  then show ?thesis
    by simp
qed

lemma dots_after:
  assumes "length a = k" and "3 \<le> length t"
  shows "(a @ t)[k + 2 := d, k + 1 := d, k := d] = a @ [d, d, d] @ drop 3 t"
  using assms three_dots [OF assms(2), of d] by (simp add: list_update_append)

lemma row_with_dots:
  assumes "3 \<le> w" and "w \<le> 32" and "w - 3 \<le> n" and "n \<le> w" and "n \<le> length src"
  shows "(take n src @ NUL # drop (Suc n) (zeroed 33))[w - 1 := d, w - 2 := d, w - 3 := d] =
           take (w - 3) src @ [d, d, d] @ replicate (33 - w) NUL"
proof -
  define a where "a = take (w - 3) src"
  define t where "t = drop (w - 3) (take n src) @ replicate (33 - n) NUL"
  have la: "length a = w - 3"
    using assms by (simp add: a_def)
  have lt: "3 \<le> length t"
    using assms by (simp add: t_def)
  have "NUL # drop (Suc n) (zeroed 33) = replicate (33 - n) NUL"
    using assms by (simp add: zeroed_def flip: replicate_Suc) 
  moreover have "take (w - 3) (take n src) = a"
    using assms(3) by (simp add: a_def min_def)
  then have "take n src = a @ drop (w - 3) (take n src)"
    using append_take_drop_id [of "w - 3" "take n src"] by simp
  ultimately have buf: "take n src @ NUL # drop (Suc n) (zeroed 33) = a @ t"
    by (simp add: t_def)
  have idx: "w - 1 = (w - 3) + 2" "w - 2 = (w - 3) + 1"
    using assms(1) by simp_all
  have "drop 3 t = replicate (33 - w) NUL"
    using assms by (simp add: t_def)
  with dots_after [OF la lt, of d] show ?thesis
    unfolding buf idx by (simp add: a_def)
qed

lemma split_message_eq:
  assumes "w = min rowlen 32"
  shows "split_message msg len rowlen =
     (if 4 * w < len then
        (if w < 3 then None
         else Some [row_of msg len w 0, row_of msg len w 1, row_of msg len w 2,
                    (row_of msg len w 3)[w - 1 := CHR ''.'', w - 2 := CHR ''.'',
                                         w - 3 := CHR ''.'']])
      else Some [row_of msg len w 0, row_of msg len w 1, row_of msg len w 2, row_of msg len w 3])"
proof -
  have "w \<le> 32"
    using assms by simp
  then have "split_message msg len w =
     (if 4 * w < len then
        (if w < 3 then None
         else Some [row_of msg len w 0, row_of msg len w 1, row_of msg len w 2,
                    (row_of msg len w 3)[w - 1 := CHR ''.'', w - 2 := CHR ''.'',
                                         w - 3 := CHR ''.'']])
      else Some [row_of msg len w 0, row_of msg len w 1, row_of msg len w 2, row_of msg len w 3])"
    by (simp add: split_message_def row_of_def Let_def mult.commute)
  then show ?thesis
    unfolding assms by (subst split_message_clamp)
qed

lemma cstr_row_of:
  "cstr (row_of msg len w k) =
     (if k = 0 \<or> w * k < len then take w (cstr (drop (w * k) msg)) else [])"
  by (simp add: row_of_def cstr_strlcpy cstr_zeroed)

lemma cstr_dotted_row:
  assumes "3 \<le> w" and "w \<le> 32" and "w - 3 \<le> strlen src"
  shows "cstr ((strlcpy (zeroed 33) src (Suc w))[w - 1 := CHR ''.'', w - 2 := CHR ''.'',
                                                 w - 3 := CHR ''.'']) =
           take (w - 3) src @ ''...''"
proof -
  define m where "m = min (strlen src) w"
  have m: "w - 3 \<le> m" "m \<le> w" "m \<le> length (cstr src)"
    using assms by (simp_all add: m_def strlen_def)
  have "take w (cstr src) = take m (cstr src)"
    by (simp add: m_def strlen_def min_def)
  then have "strlcpy (zeroed 33) src (Suc w) = take m (cstr src) @ NUL # drop (Suc m) (zeroed 33)"
    by (simp add: strlcpy_eq m_def)
  then have "(strlcpy (zeroed 33) src (Suc w))[w - 1 := CHR ''.'', w - 2 := CHR ''.'',
      w - 3 := CHR ''.''] = (take (w - 3) (cstr src) @ ''...'') @ NUL # replicate (32 - w) NUL"
    using row_with_dots [OF assms(1,2) m, of "CHR ''.''"] assms(2)
    by (simp add: Suc_diff_le flip: replicate_Suc)
  moreover have "NUL \<notin> set (take (w - 3) (cstr src) @ ''...'')"
    using NUL_notin_cstr [of src] by (auto dest: in_set_takeD)
  then have "cstr ((take (w - 3) (cstr src) @ ''...'') @ NUL # replicate (32 - w) NUL) =
      take (w - 3) (cstr src) @ ''...''"
    by (rule cstr_terminated)
  ultimately have "cstr ((strlcpy (zeroed 33) src (Suc w))[w - 1 := CHR ''.'', w - 2 := CHR ''.'',
      w - 3 := CHR ''.'']) = take (w - 3) (cstr src) @ ''...''"
    by simp
  moreover have "take (w - 3) (cstr src) = take (w - 3) src"
    using take_le_strlen [OF assms(3)] by simp
  ultimately show ?thesis
    by simp
qed

lemma split_message_rows:
  assumes "w = min rowlen 32" and "len \<le> 4 * w"
  shows "\<exists>rows. split_message msg len rowlen = Some rows \<and> length rows = 4 \<and>
           (\<forall>k < 4. cstr (rows ! k) =
              (if k = 0 \<or> w * k < len then take w (cstr (drop (w * k) msg)) else []))"
proof -
  have split: "split_message msg len rowlen =
      Some [row_of msg len w 0, row_of msg len w 1, row_of msg len w 2, row_of msg len w 3]"
    using assms(2) by (simp add: split_message_eq [OF assms(1)])
  have "\<forall>k < 4. cstr ([row_of msg len w 0, row_of msg len w 1, row_of msg len w 2,
            row_of msg len w 3] ! k) =
          (if k = 0 \<or> w * k < len then take w (cstr (drop (w * k) msg)) else [])"
  proof (intro allI impI)
    fix k :: nat
    assume "k < 4"
    then consider "k = 0" | "k = 1" | "k = 2" | "k = 3"
      by linarith
    then show "cstr ([row_of msg len w 0, row_of msg len w 1, row_of msg len w 2,
            row_of msg len w 3] ! k) =
          (if k = 0 \<or> w * k < len then take w (cstr (drop (w * k) msg)) else [])"
      by cases (simp_all add: cstr_row_of)
  qed
  with split show ?thesis
    by simp
qed

text \<open>
  Claim C7, as the code has it. For a call whose \<open>len\<close> is at most the row width (clamped to
  32), \<^verbatim>\<open>split_message\<close> returns four rows of which row 0 holds the C string at \<open>msg\<close>, that
  is the bytes before the first zero byte, cut to the clamped row width, whatever \<open>len\<close> is;
  this is the input of \<open>len\<close> bytes when the first zero byte comes right after these bytes.
  Rows 1 to 3 are empty. No dots are written.
\<close>

theorem split_message_one_row:
  assumes "len \<le> min rowlen 32"
  shows "\<exists>rows. split_message msg len rowlen = Some rows \<and>
           cstr (rows ! 0) = take (min rowlen 32) (cstr msg) \<and>
           (strlen msg = len \<longrightarrow> cstr (rows ! 0) = take len msg) \<and>
           cstr (rows ! 1) = [] \<and> cstr (rows ! 2) = [] \<and> cstr (rows ! 3) = []"
proof -
  let ?row0 = "strlcpy (zeroed 33) msg (Suc (min rowlen 32))"
  have row0: "cstr ?row0 = take (min rowlen 32) (cstr msg)"
    by (rule cstr_strlcpy)
  have "cstr msg = take len msg" if "strlen msg = len"
    using that cstr_eq_take [of msg] by simp
  moreover have "take (min rowlen 32) (cstr msg) = cstr msg" if "strlen msg = len"
    using that assms by (simp add: strlen_def)
  ultimately have "strlen msg = len \<longrightarrow> cstr ?row0 = take len msg"
    using row0 by simp
  with row0 show ?thesis
    by (simp only: split_message_short [OF assms] cstr_zeroed nth_Cons_0 nth_Cons_Suc
        nth_Cons_numeral numeral_2_eq_2 numeral_3_eq_3 One_nat_def option.inject simp_thms ex_simps)
qed

theorem split_message_one_row_witness:
  "\<exists>rows. split_message ''bc1qar0srrr7xfkvy5l6'' 20 20 = Some rows \<and>
     cstr (rows ! 0) = ''bc1qar0srrr7xfkvy5l6'' \<and>
     cstr (rows ! 1) = [] \<and> cstr (rows ! 2) = [] \<and> cstr (rows ! 3) = []"
proof -
  let ?m = "''bc1qar0srrr7xfkvy5l6''"
  have h: "(20::nat) \<le> min 20 32"
    by simp
  have n: "strlen ?m = 20"
    by (simp add: strlen_def cstr_def)
  from split_message_one_row [OF h, of ?m] n obtain rows where
    r: "split_message ?m 20 20 = Some rows" "cstr (rows ! 0) = take 20 ?m"
      "cstr (rows ! 1) = []" "cstr (rows ! 2) = []" "cstr (rows ! 3) = []"
    by blast
  have "cstr (rows ! 0) = ?m"
    using r(2) by simp
  with r(1,3-5) show ?thesis
    by blast
qed

text \<open>The claim as the spec states it fails on an input that holds a zero byte: the copy into
  row 0 stops there. It fails as well when the buffer goes on after \<open>len\<close> bytes without a zero
  byte: the copy does not stop at \<open>len\<close>.\<close>

theorem split_message_zero_byte:
  "split_message [CHR ''A'', NUL, CHR ''B''] 3 20 =
     Some [CHR ''A'' # zeroed 32, zeroed 33, zeroed 33, zeroed 33] \<and>
   cstr (CHR ''A'' # zeroed 32) \<noteq> [CHR ''A'', NUL, CHR ''B''] \<and>
   cstr (the (split_message ''hello world'' 5 20) ! 0) = ''hello world''"
  by code_simp

text \<open>
  Claim C6, as the code has it. Let \<open>w\<close> be the row width clamped to 32, with a row width of
  at least 3. For a call with \<open>len > 4 * w\<close> in which the fourth chunk, the bytes from position
  \<open>3 * w\<close> on, begins with at least \<open>w - 3\<close> bytes that are not zero, row 3 is these \<open>w - 3\<close>
  bytes followed by "..." (the dots at positions \<open>w - 3\<close> to \<open>w - 1\<close>). Rows 0 to 2 are the
  first three chunks, each cut at its first zero byte. The dots are the only report of the
  truncation: the function returns the rows and nothing else.
\<close>

theorem split_message_truncated:
  assumes "w = min rowlen 32" and "3 \<le> rowlen" and "4 * w < len"
    and "w - 3 \<le> strlen (drop (w * 3) msg)"
  shows "\<exists>rows. split_message msg len rowlen = Some rows \<and>
           (\<forall>k < 3. cstr (rows ! k) = take w (cstr (drop (w * k) msg))) \<and>
           cstr (rows ! 3) = take (w - 3) (drop (w * 3) msg) @ ''...''"
proof -
  have w3: "3 \<le> w" and w32: "w \<le> 32"
    using assms(1,2) by simp_all
  have r3: "row_of msg len w 3 = strlcpy (zeroed 33) (drop (w * 3) msg) (Suc w)"
    using assms(3) by (simp add: row_of_def)
  have split: "split_message msg len rowlen =
      Some [row_of msg len w 0, row_of msg len w 1, row_of msg len w 2,
            (row_of msg len w 3)[w - 1 := CHR ''.'', w - 2 := CHR ''.'', w - 3 := CHR ''.'']]"
    using assms(3) w3 by (simp add: split_message_eq [OF assms(1)])
  have last: "cstr ((row_of msg len w 3)[w - 1 := CHR ''.'', w - 2 := CHR ''.'',
      w - 3 := CHR ''.'']) = take (w - 3) (drop (w * 3) msg) @ ''...''"
    unfolding r3 by (rule cstr_dotted_row [OF w3 w32 assms(4)])
  have first: "cstr (row_of msg len w k) = take w (cstr (drop (w * k) msg))" if "k < 3" for k
  proof -
    from that consider "k = 0" | "k = 1" | "k = 2"
      by linarith
    then have "w * k < len"
      using assms(3) w3 by cases simp_all
    then show ?thesis
      by (simp add: cstr_row_of)
  qed
  have "\<forall>k < 3. cstr ([row_of msg len w 0, row_of msg len w 1, row_of msg len w 2,
            (row_of msg len w 3)[w - 1 := CHR ''.'', w - 2 := CHR ''.'', w - 3 := CHR ''.'']] ! k) =
          take w (cstr (drop (w * k) msg))"
  proof (intro allI impI)
    fix k :: nat
    assume "k < 3"
    then consider "k = 0" | "k = 1" | "k = 2"
      by linarith
    then show "cstr ([row_of msg len w 0, row_of msg len w 1, row_of msg len w 2,
            (row_of msg len w 3)[w - 1 := CHR ''.'', w - 2 := CHR ''.'', w - 3 := CHR ''.'']] ! k) =
          take w (cstr (drop (w * k) msg))"
      using first [of 0] first [of 1] first [of 2] by cases simp_all
  qed
  with split last show ?thesis
    by simp
qed

theorem split_message_truncated_witness:
  "\<exists>rows. split_message ''0123456789abcdefghijABCDEFGHIJ0123456789abcde'' 45 10 = Some rows \<and>
     cstr (rows ! 0) = ''0123456789'' \<and> cstr (rows ! 3) = ''0123456...''"
proof -
  let ?m = "''0123456789abcdefghijABCDEFGHIJ0123456789abcde''"
  have h: "(10::nat) = min 10 32" "(3::nat) \<le> 10" "4 * 10 < (45::nat)"
    "10 - 3 \<le> strlen (drop (10 * 3) ?m)"
    by (simp_all add: strlen_def cstr_def)
  from split_message_truncated [OF h] obtain rows where
    r: "split_message ?m 45 10 = Some rows"
      "\<forall>k < 3. cstr (rows ! k) = take 10 (cstr (drop (10 * k) ?m))"
      "cstr (rows ! 3) = take (10 - 3) (drop (10 * 3) ?m) @ ''...''"
    by blast
  have "cstr (rows ! 0) = ''0123456789''"
    using r(2) [rule_format, of 0] by (simp add: cstr_def)
  moreover have "cstr (rows ! 3) = ''0123456...''"
    using r(3) by simp
  ultimately show ?thesis
    using r(1) by blast
qed

text \<open>The claim as the spec states it fails when a zero byte ends the fourth chunk early (the
  dots then lie behind the terminator of an empty row), and for a row width below 3 (the dots
  are stored outside the row).\<close>

theorem split_message_no_dots:
  "cstr (the (split_message (replicate 30 (CHR ''A'') @ NUL # replicate 14 (CHR ''A'')) 45 10) ! 3)
     = [] \<and>
   split_message (replicate 9 (CHR ''A'')) 9 2 = None"
  by code_simp

lemma length_hex_of_bytes: "length (hex_of_bytes hexdigits data) = 2 * length data"
  by (induction data) (simp_all add: hex_of_bytes_def)

lemma two_dots:
  assumes "length h = 64"
  shows "(h @ [NUL])[63 := d, 62 := d] = (take 62 h @ [d, d]) @ [NUL]"
  using assms by (intro nth_equalityI) (auto simp: nth_list_update nth_append)

lemma set_hex_of_bytes:
  assumes "length hexdigits = 16"
  shows "set (hex_of_bytes hexdigits data) \<subseteq> set hexdigits"
proof -
  have "hexdigits ! ((of_char b :: nat) div 16) \<in> set hexdigits"
    and "hexdigits ! ((of_char b :: nat) mod 16) \<in> set hexdigits" for b :: char
  proof -
    have "(of_char b :: nat) div 16 < 16"
      using nat_of_char_less_256 [of b] by (simp add: less_mult_imp_div_less)
    then show "hexdigits ! ((of_char b :: nat) div 16) \<in> set hexdigits"
      using assms by simp
    show "hexdigits ! ((of_char b :: nat) mod 16) \<in> set hexdigits"
      using assms by simp
  qed
  then show ?thesis
    by (auto simp: hex_of_bytes_def)
qed

lemma split_message_hex_eq:
  assumes "len \<le> length msg"
  shows "split_message_hex hexdigits msg len =
     split_message
       (if len > 32 then take 62 (hex_of_bytes hexdigits (take 32 msg)) @ ''..''
        else hex_of_bytes hexdigits (take len msg))
       (length (if len > 32 then take 62 (hex_of_bytes hexdigits (take 32 msg)) @ ''..''
                else hex_of_bytes hexdigits (take len msg)))
       16"
proof (cases "len > 32")
  case True
  define h where "h = hex_of_bytes hexdigits (take 32 msg)"
  have len: "length h = 64"
    using True assms by (simp add: h_def length_hex_of_bytes)
  have "split_message_hex hexdigits msg len =
      split_message ((h @ [NUL])[63 := CHR ''.'', 62 := CHR ''.'']) 64 16"
    using True by (simp add: split_message_hex_def data2hex_def Let_def h_def zeroed_def)
  also have "\<dots> = split_message ((take 62 h @ ''..'') @ NUL # []) 64 16"
    by (simp only: two_dots [OF len])
  also have "\<dots> = split_message (take 62 h @ ''..'') 64 16"
    using len by (intro split_message_src_tail) simp
  finally show ?thesis
    using True len by (simp add: h_def)
next
  case False
  have "split_message_hex hexdigits msg len =
      split_message (hex_of_bytes hexdigits (take len msg) @ NUL # drop (len * 2 + 1) (zeroed 65))
        (len * 2) 16"
    using False by (simp add: split_message_hex_def data2hex_def Let_def)
  also have "\<dots> = split_message (hex_of_bytes hexdigits (take len msg)) (len * 2) 16"
    using assms by (intro split_message_src_tail) (simp add: length_hex_of_bytes)
  finally show ?thesis
    using False assms by (simp add: length_hex_of_bytes mult.commute)
qed

lemma hex_row_examples:
  "take 16 (drop (16 * 0)
     (take 62 (hex_of_bytes ''0123456789ABCDEF'' (take 32 (replicate 33 (CHR 0xA7)))) @ ''..'')) =
     ''A7A7A7A7A7A7A7A7''"
  "take 16 (drop (16 * 3)
     (take 62 (hex_of_bytes ''0123456789ABCDEF'' (take 32 (replicate 33 (CHR 0xA7)))) @ ''..'')) =
     ''A7A7A7A7A7A7A7..''"
  by code_simp+

text \<open>
  Claim C8. For a buffer of at least \<open>len\<close> bytes and a table of sixteen digits none of which
  is zero, \<^verbatim>\<open>split_message_hex\<close> returns four rows that are the consecutive chunks of 16
  characters of the text \<open>shown\<close>: the hex digits of the first 32 bytes at most, hence 64
  characters at most, with the characters at positions 62 and 63 replaced by ".." when
  \<open>len\<close> exceeds 32.
\<close>

theorem split_message_hex_rows:
  assumes "NUL \<notin> set hexdigits" and "length hexdigits = 16" and "len \<le> length msg"
    and "shown = (if len > 32 then take 62 (hex_of_bytes hexdigits (take 32 msg)) @ ''..''
                 else hex_of_bytes hexdigits (take len msg))"
  shows "\<exists>rows. split_message_hex hexdigits msg len = Some rows \<and> length rows = 4 \<and>
           (\<forall>k < 4. cstr (rows ! k) = take 16 (drop (16 * k) shown)) \<and>
           length shown = 2 * min len 32"
proof -
  have nul: "NUL \<notin> set shown"
    using assms(1) set_hex_of_bytes [OF assms(2)]
    by (auto simp: assms(4) dest!: in_set_takeD)
  have len: "length shown = 2 * min len 32"
    using assms(3) by (simp add: assms(4) length_hex_of_bytes)
  then have le: "length shown \<le> 4 * 16"
    by simp
  have eq: "split_message_hex hexdigits msg len = split_message shown (length shown) 16"
    unfolding assms(4) by (rule split_message_hex_eq [OF assms(3)])
  have w: "(16::nat) = min 16 32"
    by simp
  from split_message_rows [OF w le, of shown] obtain rows where
    rows: "split_message shown (length shown) 16 = Some rows" "length rows = 4"
      "\<forall>k < 4. cstr (rows ! k) =
         (if k = 0 \<or> 16 * k < length shown then take 16 (cstr (drop (16 * k) shown)) else [])"
    by blast
  have "cstr (rows ! k) = take 16 (drop (16 * k) shown)" if "k < 4" for k
  proof -
    have "NUL \<notin> set (drop (16 * k) shown)"
      using nul by (auto dest: in_set_dropD)
    then have "cstr (drop (16 * k) shown) = drop (16 * k) shown"
      by (rule cstr_no_NUL)
    moreover have "drop (16 * k) shown = []" if "\<not> (k = 0 \<or> 16 * k < length shown)"
      using that by simp
    ultimately show ?thesis
      using rows(3) that by auto
  qed
  with eq rows(1,2) len show ?thesis
    by simp
qed

text \<open>An input of 33 bytes \<open>0xA7\<close> with the upper-case digits: 32 bytes are encoded and the
  last row ends in two dots.\<close>

theorem split_message_hex_rows_witness:
  "\<exists>rows. split_message_hex ''0123456789ABCDEF'' (replicate 33 (CHR 0xA7)) 33 = Some rows \<and>
     length rows = 4 \<and> cstr (rows ! 0) = ''A7A7A7A7A7A7A7A7'' \<and>
     cstr (rows ! 3) = ''A7A7A7A7A7A7A7..''"
proof -
  let ?hd = "''0123456789ABCDEF''"
  let ?m = "replicate 33 (CHR 0xA7)"
  let ?shown = "take 62 (hex_of_bytes ?hd (take 32 ?m)) @ ''..''"
  have h: "NUL \<notin> set ?hd" "length ?hd = 16" "33 \<le> length ?m"
    by simp_all
  have s: "?shown = (if 33 > (32::nat) then take 62 (hex_of_bytes ?hd (take 32 ?m)) @ ''..''
      else hex_of_bytes ?hd (take 33 ?m))"
    by simp
  from split_message_hex_rows [OF h s] obtain rows where
    r: "split_message_hex ?hd ?m 33 = Some rows" "length rows = 4"
      "\<forall>k < 4. cstr (rows ! k) = take 16 (drop (16 * k) ?shown)"
    by blast
  have "cstr (rows ! 0) = ''A7A7A7A7A7A7A7A7''"
    using r(3) [rule_format, of 0] by (simp only: hex_row_examples)
  moreover have "cstr (rows ! 3) = ''A7A7A7A7A7A7A7..''"
    using r(3) [rule_format, of 3] by (simp only: hex_row_examples)
  ultimately show ?thesis
    using r(1,2) by blast
qed

section \<open>Properties of the home-screen poll\<close>

lemmas poll_defs = tick_def layoutHomeInfo_def info_pages_def home_timeout_def auto_lock_def
  logo_refresh_def wake_or_abort_def layoutHome_def layoutDeviceInfo_def layoutScreensaver_def
  shutdown_def layoutStatusLogo_def emit_def DEVICE_INFO_PAGE_NUM_def

text \<open>
  Claim C1, as the code has it. When the screen was drawn by a layout function other than
  \<^verbatim>\<open>layoutHome\<close>, \<^verbatim>\<open>layoutDeviceInfo\<close> and \<^verbatim>\<open>layoutScreensaver\<close>, no refresh of the
  home screen is pending and the No button edge is set, the tick calls \<^verbatim>\<open>recovery_abort()\<close>
  once and \<^verbatim>\<open>signing_abort()\<close> once, does nothing else, and leaves the screen as it was.
\<close>

theorem cancel_aborts_on_dialog:
  assumes "layoutLast s \<noteq> FnLayoutHome" and "layoutLast s \<noteq> FnLayoutDeviceInfo"
    and "layoutLast s \<noteq> FnLayoutScreensaver"
    and "\<not> layoutNeedRefresh e" and "NoUp (button e)"
  shows "trace (tick e s) = [RecoveryAbort, SigningAbort] \<and>
         count_list (trace (tick e s)) SigningAbort = 1 \<and>
         count_list (trace (tick e s)) RecoveryAbort = 1 \<and>
         layoutLast (tick e s) = layoutLast s \<and> info_page (tick e s) = info_page s"
  using assms by (simp add: poll_defs)

theorem cancel_aborts_on_dialog_witness:
  "trace (tick (quiet_env\<lparr>button := no_buttons\<lparr>NoUp := True\<rparr>\<rparr>) (ui_at FnLayoutDialogSwipe 0))
     = [RecoveryAbort, SigningAbort] \<and>
   layoutLast (tick (quiet_env\<lparr>button := no_buttons\<lparr>NoUp := True\<rparr>\<rparr>) (ui_at FnLayoutDialogSwipe 0))
     = FnLayoutDialogSwipe"
  using cancel_aborts_on_dialog
    [of "ui_at FnLayoutDialogSwipe 0" "quiet_env\<lparr>button := no_buttons\<lparr>NoUp := True\<rparr>\<rparr>"]
  by (simp add: quiet_env_def no_buttons_def ui_at_def)

text \<open>The claim as the spec states it fails on an info page: the No button leads back to the
  home screen, which is drawn, and nothing is aborted.\<close>

theorem cancel_on_info_page:
  "layoutLast (ui_at FnLayoutDeviceInfo 1) \<noteq> FnLayoutHome \<and>
   layoutLast (ui_at FnLayoutDeviceInfo 1) \<noteq> FnLayoutScreensaver \<and>
   NoUp (button (quiet_env\<lparr>button := no_buttons\<lparr>NoUp := True\<rparr>\<rparr>)) \<and>
   trace (tick (quiet_env\<lparr>button := no_buttons\<lparr>NoUp := True\<rparr>\<rparr>) (ui_at FnLayoutDeviceInfo 1))
     = [LayoutSwipe, DrawHome, OledRefresh] \<and>
   layoutLast (tick (quiet_env\<lparr>button := no_buttons\<lparr>NoUp := True\<rparr>\<rparr>) (ui_at FnLayoutDeviceInfo 1))
     = FnLayoutHome"
  by (simp add: poll_defs quiet_env_def no_buttons_def ui_at_def)

text \<open>
  Claim C2, as the code has it. The screen is the home screen, no button edge is set, no
  refresh is pending, and the clock is at least the auto-lock delay past
  \<^verbatim>\<open>system_millis_lock_start\<close> (in 32-bit arithmetic). With NFC or USB present, and unless
  the status poll is due and reports in this tick, the tick calls \<^verbatim>\<open>session_clear(true)\<close>
  once and the screen becomes the screensaver. With neither present, the tick calls
  \<^verbatim>\<open>shutdown()\<close> once.
\<close>

theorem auto_lock_from_home:
  assumes "layoutLast s = FnLayoutHome"
    and "\<not> NoUp (button e)" and "\<not> YesUp (button e)" and "\<not> UpUp (button e)"
    and "\<not> DownUp (button e)"
    and "\<not> layoutNeedRefresh e"
    and "timer_ms e - system_millis_lock_start s \<ge> config_getAutoLockDelayMs e"
  shows "((sys_nfcState e \<or> sys_usbState e) \<and>
          \<not> (timer_ms e - system_millis_logo_refresh s \<ge> 1000 \<and> statusLogo e 0 False) \<longrightarrow>
            count_list (trace (tick e s)) (SessionClear True) = 1 \<and>
            layoutLast (tick e s) = FnLayoutScreensaver) \<and>
         (\<not> (sys_nfcState e \<or> sys_usbState e) \<longrightarrow>
            count_list (trace (tick e s)) Shutdown = 1)"
  using assms by (simp add: poll_defs Let_def)

theorem auto_lock_from_home_witness:
  "count_list (trace (tick (quiet_env\<lparr>timer_ms := 600000\<rparr>) (ui_at FnLayoutHome 0)))
     (SessionClear True) = 1 \<and>
   layoutLast (tick (quiet_env\<lparr>timer_ms := 600000\<rparr>) (ui_at FnLayoutHome 0)) = FnLayoutScreensaver \<and>
   count_list (trace (tick (quiet_env\<lparr>timer_ms := 600000, sys_usbState := False\<rparr>)
     (ui_at FnLayoutHome 0))) Shutdown = 1"
  using auto_lock_from_home [of "ui_at FnLayoutHome 0" "quiet_env\<lparr>timer_ms := 600000\<rparr>"]
    auto_lock_from_home [of "ui_at FnLayoutHome 0" "quiet_env\<lparr>timer_ms := 600000, sys_usbState := False\<rparr>"]
  by (simp add: quiet_env_def no_buttons_def ui_at_def)

text \<open>The claim as the spec states it fails when the status poll, which runs under the same
  test of \<^verbatim>\<open>layoutLast\<close>, is due and reports in the tick that locks: the session is cleared
  a second time and the home screen is drawn again.\<close>

theorem auto_lock_with_status_report:
  "layoutLast (ui_at FnLayoutHome 0) = FnLayoutHome \<and>
   button alarm_env = no_buttons \<and>
   timer_ms alarm_env
     - system_millis_lock_start (ui_at FnLayoutHome 0)
     \<ge> config_getAutoLockDelayMs alarm_env \<and>
   sys_usbState alarm_env \<and>
   trace (tick alarm_env
     (ui_at FnLayoutHome 0)) =
     [SessionClear True, OledClear, OledRefresh, RecoveryAbort, SigningAbort, SessionClear True,
      OledClear, DrawHome, OledRefresh] \<and>
   count_list (trace (tick alarm_env
     (ui_at FnLayoutHome 0))) (SessionClear True) = 2 \<and>
   layoutLast (tick alarm_env
     (ui_at FnLayoutHome 0)) = FnLayoutHome"
  by (simp add: poll_defs alarm_env_def status_once_def quiet_env_def no_buttons_def ui_at_def)

lemma sf_layoutHome: "stamps_follow e l i s \<Longrightarrow> stamps_follow e l i (layoutHome e s)"
  by (simp add: stamps_follow_def layoutHome_def layoutStatusLogo_def emit_def Let_def)

lemma sf_layoutDeviceInfo:
  "stamps_follow e l i s \<Longrightarrow> stamps_follow e l i (layoutDeviceInfo e q s)"
  by (simp add: stamps_follow_def layoutDeviceInfo_def emit_def)

lemma sf_layoutScreensaver:
  "stamps_follow e l i s \<Longrightarrow> stamps_follow e l i (layoutScreensaver s)"
  by (simp add: stamps_follow_def layoutScreensaver_def emit_def)

lemma sf_info_page [simp]: "stamps_follow e l i (s\<lparr>info_page := n\<rparr>) = stamps_follow e l i s"
  by (simp add: stamps_follow_def)

lemma sf_logo_stamp [simp]:
  "stamps_follow e l i (s\<lparr>system_millis_logo_refresh := t\<rparr>) = stamps_follow e l i s"
  by (simp add: stamps_follow_def)

lemma sf_aborts:
  "stamps_follow e l i s \<Longrightarrow> stamps_follow e l i (emit SigningAbort (emit RecoveryAbort s))"
  "stamps_follow e l i s \<Longrightarrow>
     stamps_follow e l i (emit (SessionClear b) (emit SigningAbort (emit RecoveryAbort s)))"
  "stamps_follow e l i s \<Longrightarrow> stamps_follow e l i (emit (SessionClear b) s)"
  by (simp_all add: stamps_follow_def emit_def)

lemma sf_info_pages: "stamps_follow e l i s \<Longrightarrow> stamps_follow e l i (info_pages e s)"
  by (simp add: info_pages_def Let_def sf_layoutHome sf_layoutDeviceInfo)

lemma sf_auto_lock: "stamps_follow e l i s \<Longrightarrow> stamps_follow e l i (auto_lock e s)"
  by (simp add: auto_lock_def sf_layoutScreensaver sf_aborts)
     (simp add: stamps_follow_def shutdown_def emit_def)

lemma sf_logo_refresh: "stamps_follow e l i s \<Longrightarrow> stamps_follow e l i (logo_refresh e s)"
proof -
  assume a: "stamps_follow e l i s"
  have "stamps_follow e l i (s\<lparr>logo_calls := n\<rparr>)" for n
    using a by (simp add: stamps_follow_def)
  with a show ?thesis
    by (simp add: logo_refresh_def layoutStatusLogo_def Let_def sf_layoutHome sf_aborts)
qed

lemma sf_home_timeout: "stamps_follow e l i s \<Longrightarrow> stamps_follow e l i (home_timeout e s)"
  by (simp add: home_timeout_def Let_def sf_auto_lock sf_logo_refresh)

lemma sf_wake_or_abort: "stamps_follow e l i s \<Longrightarrow> stamps_follow e l i (wake_or_abort e s)"
  by (simp add: wake_or_abort_def sf_layoutHome sf_aborts)

lemma sf_layoutHomeInfo: "stamps_follow e l i s \<Longrightarrow> stamps_follow e l i (layoutHomeInfo e s)"
  by (simp add: layoutHomeInfo_def Let_def sf_layoutHome sf_info_pages
      sf_home_timeout sf_wake_or_abort)

lemma sf_tick:
  "stamps_follow e (system_millis_lock_start s) (system_millis_display_info_start s) (tick e s)"
  unfolding tick_def by (rule sf_layoutHomeInfo) (simp add: stamps_follow_def)

text \<open>
  Claim C9, as the code has it. After every tick, \<^verbatim>\<open>system_millis_lock_start\<close> is the clock
  reading of the tick when the tick drew the home screen, and its value before the tick
  otherwise; \<^verbatim>\<open>system_millis_display_info_start\<close> is the clock reading of the tick when the
  tick drew an info page, and its value before the tick otherwise. So a button edge resets the
  activity time stamp through the drawing of the home screen only.
\<close>

theorem time_stamps_follow_drawing:
  "system_millis_lock_start (tick e s) =
     (if DrawHome \<in> set (trace (tick e s)) then timer_ms e else system_millis_lock_start s) \<and>
   system_millis_display_info_start (tick e s) =
     (if \<exists>ev \<in> set (trace (tick e s)). is_DrawDeviceInfo ev then timer_ms e
      else system_millis_display_info_start s)"
  using sf_tick [of e s] by (simp add: stamps_follow_def)

text \<open>A tick with a pending refresh and the Up edge draws the home screen and then info page
  4; a tick with the No edge on a dialog draws nothing.\<close>

theorem time_stamps_follow_drawing_witness:
  "system_millis_lock_start
     (tick (quiet_env\<lparr>button := no_buttons\<lparr>UpUp := True\<rparr>, layoutNeedRefresh := True\<rparr>)
        (ui_at FnLayoutDialogSwipe 0)) = 500 \<and>
   system_millis_display_info_start
     (tick (quiet_env\<lparr>button := no_buttons\<lparr>UpUp := True\<rparr>, layoutNeedRefresh := True\<rparr>)
        (ui_at FnLayoutDialogSwipe 0)) = 500 \<and>
   system_millis_lock_start
     (tick (quiet_env\<lparr>button := no_buttons\<lparr>NoUp := True\<rparr>\<rparr>) (ui_at FnLayoutDialogSwipe 0)) = 0 \<and>
   system_millis_display_info_start
     (tick (quiet_env\<lparr>button := no_buttons\<lparr>NoUp := True\<rparr>\<rparr>) (ui_at FnLayoutDialogSwipe 0)) = 0"
proof -
  let ?e = "quiet_env\<lparr>button := no_buttons\<lparr>UpUp := True\<rparr>, layoutNeedRefresh := True\<rparr>"
  let ?f = "quiet_env\<lparr>button := no_buttons\<lparr>NoUp := True\<rparr>\<rparr>"
  let ?s = "ui_at FnLayoutDialogSwipe 0"
  have tr: "trace (tick ?e ?s) =
      [LayoutSwipe, DrawHome, OledRefresh, DrawDeviceInfo 4, OledRefresh]"
    "trace (tick ?f ?s) = [RecoveryAbort, SigningAbort]"
    by (simp_all add: poll_defs quiet_env_def no_buttons_def ui_at_def)
  have now: "timer_ms ?e = 500"
    by (simp add: quiet_env_def)
  have old: "system_millis_lock_start ?s = 0" "system_millis_display_info_start ?s = 0"
    by (simp_all add: ui_at_def)
  have "system_millis_lock_start (tick ?e ?s) = timer_ms ?e"
    and "system_millis_display_info_start (tick ?e ?s) = timer_ms ?e"
    using time_stamps_follow_drawing [of ?e ?s] unfolding tr by simp_all
  moreover have "system_millis_lock_start (tick ?f ?s) = system_millis_lock_start ?s"
    and "system_millis_display_info_start (tick ?f ?s) = system_millis_display_info_start ?s"
    using time_stamps_follow_drawing [of ?f ?s] unfolding tr by simp_all
  ultimately show ?thesis
    by (simp only: now old simp_thms)
qed

text \<open>The claim as the spec states it fails for a button edge that draws nothing: the Yes edge
  on the home screen leaves \<^verbatim>\<open>system_millis_lock_start\<close> at its old value.\<close>

theorem button_edge_without_reset:
  "YesUp (button (quiet_env\<lparr>button := no_buttons\<lparr>YesUp := True\<rparr>\<rparr>)) \<and>
   timer_ms (quiet_env\<lparr>button := no_buttons\<lparr>YesUp := True\<rparr>\<rparr>) = 500 \<and>
   system_millis_lock_start
     (tick (quiet_env\<lparr>button := no_buttons\<lparr>YesUp := True\<rparr>\<rparr>) (ui_at FnLayoutHome 0)) = 0 \<and>
   trace (tick (quiet_env\<lparr>button := no_buttons\<lparr>YesUp := True\<rparr>\<rparr>) (ui_at FnLayoutHome 0)) = []"
  by (simp add: poll_defs quiet_env_def no_buttons_def ui_at_def)

text \<open>
  Claim C10. On the home screen with the Up (previous) and Down (next) edges both set, the tick
  shows info page 4, not page 1: the test of \<^verbatim>\<open>button.UpUp\<close> comes first.
\<close>

theorem prev_wins_over_next:
  assumes "layoutLast s = FnLayoutHome" and "UpUp (button e)" and "DownUp (button e)"
  shows "layoutLast (tick e s) = FnLayoutDeviceInfo \<and> info_page (tick e s) = 4 \<and>
         DrawDeviceInfo 4 \<in> set (trace (tick e s)) \<and>
         DrawDeviceInfo 1 \<notin> set (trace (tick e s))"
  using assms by (simp add: poll_defs Let_def split: prod.splits)

theorem prev_wins_over_next_witness:
  "layoutLast (tick (quiet_env\<lparr>button := no_buttons\<lparr>UpUp := True, DownUp := True\<rparr>\<rparr>)
      (ui_at FnLayoutHome 0)) = FnLayoutDeviceInfo \<and>
   info_page (tick (quiet_env\<lparr>button := no_buttons\<lparr>UpUp := True, DownUp := True\<rparr>\<rparr>)
      (ui_at FnLayoutHome 0)) = 4"
  using prev_wins_over_next
    [of "ui_at FnLayoutHome 0" "quiet_env\<lparr>button := no_buttons\<lparr>UpUp := True, DownUp := True\<rparr>\<rparr>"]
  by (simp add: quiet_env_def no_buttons_def ui_at_def)

end
